theory Spec2Isabelle
  imports Main
begin

section \<open>Data model\<close>

text \<open>
  A Nostr event as \<^verbatim>\<open>Event\<close> of \<^verbatim>\<open>@/deps.ts\<close> declares it. A tag is an array of strings
  whose first element is the tag's name; nothing in the type forces a tag to have a
  name or a value. Strings are lists of characters and \<open>length\<close> stands for the
  \<^verbatim>\<open>.length\<close> of the source. The field \<^verbatim>\<open>id\<close> is called \<open>id_ev\<close> here, since \<open>id\<close>
  is the identity function of HOL.
\<close>

type_synonym tag = "string list"

record Event =
  id_ev :: string
  pubkey :: string
  kind :: int
  created_at :: int
  tags :: "tag list"
  content :: string
  sig :: string

text \<open>The \<^verbatim>\<open>User\<close> of \<^verbatim>\<open>src/db/users.ts\<close> and the \<^verbatim>\<open>EventData\<close> that travels with an event.\<close>

record User =
  user_pubkey :: string
  inserted_at :: int
  admin :: bool

record EventData =
  user :: "User option"

text \<open>
  The errors the code can raise: an \<^verbatim>\<open>SqliteError\<close> with its numeric code, the error of
  \<^verbatim>\<open>jsonMetaContentSchema.parse\<close>, a \<^verbatim>\<open>TypeError\<close> of the JavaScript runtime, and any other
  failure of the persistence layer.
\<close>

datatype error = SqliteError int | ZodError | TypeError | StorageFailure string

text \<open>The rows of the stats tables, without their primary key.\<close>

record PubkeyStatsRow =
  followers_count :: int
  following_count :: int
  notes_count :: int

record EventStatsRow =
  replies_count :: int
  reposts_count :: int
  reactions_count :: int



text \<open>
  The database. \<^verbatim>\<open>events\<close> keeps its rows in insertion order (the column \<^verbatim>\<open>tags\<close> holds
  \<^verbatim>\<open>JSON.stringify(event.tags)\<close>, which \<^verbatim>\<open>getFilters\<close> reads back with \<^verbatim>\<open>JSON.parse\<close>: the
  row is kept as the event itself). A row of \<^verbatim>\<open>tags\<close> is \<open>(event_id, tag, value)\<close>, a row
  of \<^verbatim>\<open>events_fts\<close> is \<open>(id, content)\<close>, \<^verbatim>\<open>users\<close> is the list of local pubkeys. The two
  stats tables are keyed by their primary key.
\<close>

type_synonym TagRow = "string \<times> string \<times> string"

type_synonym FtsRow = "string \<times> string"

record DB =
  events_tbl :: "Event list"
  tags_tbl :: "TagRow list"
  events_fts_tbl :: "FtsRow list"
  users_tbl :: "string list"
  pubkey_stats_tbl :: "string \<rightharpoonup> PubkeyStatsRow"
  event_stats_tbl :: "string \<rightharpoonup> EventStatsRow"

section \<open>Stats (\<^verbatim>\<open>src/unnamed/part_003\<close>)\<close>










section \<open>The helpers that are not in the sources\<close>

text \<open>
  \<^verbatim>\<open>isParameterizedReplaceableKind\<close> (\<^verbatim>\<open>@/kinds.ts\<close>), \<^verbatim>\<open>isNostrId\<close> and \<^verbatim>\<open>isURL\<close> (\<^verbatim>\<open>@/utils.ts\<close>)
  and \<^verbatim>\<open>jsonMetaContentSchema\<close> (\<^verbatim>\<open>@/schemas/nostr.ts\<close>) are imported by
  \<^verbatim>\<open>src/db/events.ts\<close> and are not part of the sources, and neither is the database
  engine: the \<^verbatim>\<open>MATCH\<close> of the full-text table (\<open>ftsMatch s c\<close> stands for
  \<^verbatim>\<open>c MATCH JSON.stringify(s)\<close>), and the order the engine gives to rows that
  \<^verbatim>\<open>ORDER BY\<close> does not tell apart (\<open>tie_order\<close>: the row with the smaller number comes
  first). Every function below takes them as a parameter, so what is proved holds for
  any of them. The two tests on a tag's value receive the value as the
  source passes it, which is \<^verbatim>\<open>undefined\<close> for a tag of one element; the parser either
  returns the three fields \<^verbatim>\<open>buildUserSearchContent\<close> reads, or raises its \<^verbatim>\<open>ZodError\<close>
  (\<open>None\<close>).
\<close>

record MetaContent =
  name :: "string option"
  nip05 :: "string option"
  about :: "string option"

record Deps =
  isParameterizedReplaceableKind :: "int \<Rightarrow> bool"
  isNostrId :: "string option \<Rightarrow> bool"
  isURL :: "string option \<Rightarrow> bool"
  parseMetaContent :: "string \<Rightarrow> MetaContent option"
  ftsMatch :: "string \<Rightarrow> string \<Rightarrow> bool"
  tie_order :: "Event \<Rightarrow> int"

section \<open>The tag indexer (\<^verbatim>\<open>src/src/db/events.ts\<close>)\<close>

type_synonym TagCondition = "Event \<Rightarrow> EventData \<Rightarrow> nat \<Rightarrow> string option \<Rightarrow> error + bool"

text \<open>
  \<^verbatim>\<open>tagConditions\<close> is an object literal, so \<^verbatim>\<open>tagConditions[name]\<close> also finds what every
  object inherits from \<^verbatim>\<open>Object.prototype\<close>, and \<^verbatim>\<open>?.(...)\<close> calls it. \<open>objectPrototype\<close>
  gives the outcome of that call with the one argument of the source: whether the
  result is truthy, or the \<^verbatim>\<open>TypeError\<close> it raises (\<^verbatim>\<open>__proto__\<close> is an object and not a
  function; \<^verbatim>\<open>__defineGetter__\<close> and \<^verbatim>\<open>__defineSetter__\<close> reject a missing accessor).
\<close>

definition objectPrototype :: "string \<Rightarrow> TagCondition option" where
  "objectPrototype nm =
     (if nm \<in> {''constructor'', ''toString'', ''toLocaleString'', ''valueOf''}
        then Some (\<lambda>event data count v. Inr True)
      else if nm \<in> {''hasOwnProperty'', ''isPrototypeOf'', ''propertyIsEnumerable'',
                     ''__lookupGetter__'', ''__lookupSetter__''}
        then Some (\<lambda>event data count v. Inr False)
      else if nm \<in> {''__proto__'', ''__defineGetter__'', ''__defineSetter__''}
        then Some (\<lambda>event data count v. Inl TypeError)
      else None)"

text \<open>
  The seven conditions, in the order of the source. \<^verbatim>\<open>value.length\<close> in the condition
  of \<^verbatim>\<open>t\<close> raises a \<^verbatim>\<open>TypeError\<close> when the tag has no value and \<^verbatim>\<open>count < 5\<close> let the
  evaluation reach it.
\<close>

definition tagConditions :: "Deps \<Rightarrow> string \<Rightarrow> TagCondition option" where
  "tagConditions D nm =
     (if nm = ''d'' then
        Some (\<lambda>event data count v.
          Inr (count = 0 \<and> isParameterizedReplaceableKind D (kind event)))
      else if nm = ''e'' then
        Some (\<lambda>event data count v. Inr (count < 15 \<and> isNostrId D v))
      else if nm = ''media'' then
        Some (\<lambda>event data count v. Inr ((user data \<noteq> None \<or> count < 4) \<and> isURL D v))
      else if nm = ''p'' then
        Some (\<lambda>event data count v. Inr ((count < 15 \<or> kind event = 3) \<and> isNostrId D v))
      else if nm = ''proxy'' then
        Some (\<lambda>event data count v. Inr (count = 0 \<and> isURL D v))
      else if nm = ''q'' then
        Some (\<lambda>event data count v. Inr (count = 0 \<and> kind event = 1 \<and> isNostrId D v))
      else if nm = ''t'' then
        Some (\<lambda>event data count v.
          if count < 5 then (case v of None \<Rightarrow> Inl TypeError | Some s \<Rightarrow> Inr (length s < 50))
          else Inr False)
      else objectPrototype nm)"

text \<open>
  \<^verbatim>\<open>const [name, value] = tag\<close>. A tag with no element has the name \<^verbatim>\<open>undefined\<close>, which as
  a property key is the string \<^verbatim>\<open>"undefined"\<close>.
\<close>

fun tag_name :: "tag \<Rightarrow> string" where
  "tag_name [] = ''undefined''"
| "tag_name (n # _) = n"

fun tag_value :: "tag \<Rightarrow> string option" where
  "tag_value (_ # v # _) = Some v"
| "tag_value _ = None"

text \<open>\<^verbatim>\<open>tagCounts[name] || 0\<close>.\<close>

definition count_of :: "(string \<rightharpoonup> nat) \<Rightarrow> string \<Rightarrow> nat" where
  "count_of tagCounts nm = (case tagCounts nm of None \<Rightarrow> 0 | Some c \<Rightarrow> c)"

text \<open>\<^verbatim>\<open>value && value.length < 200\<close>.\<close>

fun value_fits :: "string option \<Rightarrow> bool" where
  "value_fits None = False"
| "value_fits (Some v) = (v \<noteq> [] \<and> length v < 200)"

text \<open>\<^verbatim>\<open>tagConditions[name]?.({ event, data, count, value })\<close>; \<^verbatim>\<open>undefined\<close> is falsy.\<close>

definition shouldIndex ::
  "Deps \<Rightarrow> string \<Rightarrow> Event \<Rightarrow> EventData \<Rightarrow> nat \<Rightarrow> string option \<Rightarrow> error + bool" where
  "shouldIndex D nm event data count v =
     (case tagConditions D nm of None \<Rightarrow> Inr False | Some cond \<Rightarrow> cond event data count v)"

text \<open>
  One round of the \<^verbatim>\<open>reduce\<close> of \<^verbatim>\<open>filterIndexableTags\<close>, on the counters and the results
  so far. The condition is evaluated before the value is looked at, so its
  \<^verbatim>\<open>TypeError\<close> ends the whole call.
\<close>

definition index_step ::
  "Deps \<Rightarrow> Event \<Rightarrow> EventData \<Rightarrow> (string \<rightharpoonup> nat) \<times> tag list \<Rightarrow> tag
     \<Rightarrow> error + (string \<rightharpoonup> nat) \<times> tag list" where
  "index_step D event data acc tg =
     (let tagCounts = fst acc; results = snd acc;
          nm = tag_name tg; v = tag_value tg;
          tagCounts' = tagCounts(nm \<mapsto> count_of tagCounts nm + 1)
      in case shouldIndex D nm event data (count_of tagCounts' nm - 1) v of
           Inl err \<Rightarrow> Inl err
         | Inr should \<Rightarrow>
             Inr (tagCounts', if value_fits v \<and> should then results @ [tg] else results))"

fun index_reduce ::
  "Deps \<Rightarrow> Event \<Rightarrow> EventData \<Rightarrow> (string \<rightharpoonup> nat) \<times> tag list \<Rightarrow> tag list
     \<Rightarrow> error + (string \<rightharpoonup> nat) \<times> tag list" where
  "index_reduce D event data acc [] = Inr acc"
| "index_reduce D event data acc (tg # rest) =
     (case index_step D event data acc tg of
        Inl err \<Rightarrow> Inl err
      | Inr acc' \<Rightarrow> index_reduce D event data acc' rest)"

definition filterIndexableTags :: "Deps \<Rightarrow> Event \<Rightarrow> EventData \<Rightarrow> error + tag list" where
  "filterIndexableTags D event data =
     (case index_reduce D event data (Map.empty, []) (tags event) of
        Inl err \<Rightarrow> Inl err
      | Inr acc \<Rightarrow> Inr (snd acc))"

section \<open>The search indexer (\<^verbatim>\<open>src/src/db/events.ts\<close>)\<close>

text \<open>\<^verbatim>\<open>Array.prototype.join\<close> with a separator.\<close>

fun join :: "string \<Rightarrow> string list \<Rightarrow> string" where
  "join sep [] = []"
| "join sep [x] = x"
| "join sep (x # y # rest) = x @ sep @ join sep (y # rest)"

text \<open>\<^verbatim>\<open>.filter(Boolean)\<close> on optional strings: what is \<^verbatim>\<open>undefined\<close> or empty goes.\<close>

fun filter_Boolean :: "string option list \<Rightarrow> string list" where
  "filter_Boolean [] = []"
| "filter_Boolean (None # rest) = filter_Boolean rest"
| "filter_Boolean (Some v # rest) = (if v = [] then filter_Boolean rest else v # filter_Boolean rest)"

definition buildUserSearchContent :: "Deps \<Rightarrow> Event \<Rightarrow> error + string" where
  "buildUserSearchContent D event =
     (case parseMetaContent D (content event) of
        None \<Rightarrow> Inl ZodError
      | Some m \<Rightarrow> Inr (join [CHR 0x0A] (filter_Boolean [name m, nip05 m, about m])))"

definition buildSearchContent :: "Deps \<Rightarrow> Event \<Rightarrow> error + string" where
  "buildSearchContent D event =
     (if kind event = 0 then buildUserSearchContent D event
      else if kind event = 1 then Inr (content event)
      else Inr [])"

section \<open>Inserting an event (\<^verbatim>\<open>src/src/db/events.ts\<close>)\<close>

text \<open>
  What the persistence layer answers to each of the three \<^verbatim>\<open>INSERT\<close> statements beyond
  what the model decides itself: \<open>None\<close> when the statement runs, \<open>Some err\<close> when it
  fails with \<open>err\<close> (a full disk, a lock). The model decides two constraints itself. The
  primary key of \<^verbatim>\<open>events\<close>: a second row with a stored \<^verbatim>\<open>id\<close> fails with the \<^verbatim>\<open>SqliteError\<close>
  of code 19 that the \<^verbatim>\<open>.catch\<close> of \<^verbatim>\<open>insertEvent\<close> looks for. And the foreign key of
  \<^verbatim>\<open>tags.event_id\<close>, when the schema enforces it (\<open>tags_foreign_key\<close>; the schema is not in
  the sources): a tag row for an event that is not stored fails in the same way. The
  full-text table \<^verbatim>\<open>events_fts\<close> carries no constraint.

  \<open>answered_before_rollback\<close> is the number of statements, among those still waiting
  for the connection when one statement has failed, that are answered before the
  \<^verbatim>\<open>ROLLBACK\<close> of the transaction reaches the database.
\<close>

record Faults =
  addEvent_fault :: "error option"
  indexTags_fault :: "error option"
  indexSearch_fault :: "error option"
  tags_foreign_key :: bool
  answered_before_rollback :: nat

text \<open>
  A statement takes the tables to new tables, or fails. The three inner functions are
  \<^verbatim>\<open>async\<close> and are called one after the other before anything is awaited; each runs up
  to its first \<^verbatim>\<open>await\<close>. \<^verbatim>\<open>addEvent\<close> is called first and finds the connection of the
  transaction free: its statement is answered then and there. \<^verbatim>\<open>indexTags\<close> and
  \<^verbatim>\<open>indexSearch\<close> have, when they return their promise, either raised (\<open>Rejected\<close>),
  returned without a statement (\<open>Fulfilled\<close>), or put their statement in the queue of the
  connection behind that of \<^verbatim>\<open>addEvent\<close> (\<open>Queued\<close>).
\<close>

type_synonym statement = "DB \<Rightarrow> error + DB"

datatype promise = Rejected error | Fulfilled | Queued statement

definition addEvent :: "Faults \<Rightarrow> Event \<Rightarrow> statement" where
  "addEvent F event trx =
     (case addEvent_fault F of
        Some err \<Rightarrow> Inl err
      | None \<Rightarrow>
          if id_ev event \<in> set (map id_ev (events_tbl trx)) then Inl (SqliteError 19)
          else Inr (trx\<lparr>events_tbl := events_tbl trx @ [event]\<rparr>))"

text \<open>
  \<^verbatim>\<open>({ event_id: event.id, tag, value })\<close> for a tag that passed the filter, which has a
  value.
\<close>

definition tag_row :: "Event \<Rightarrow> tag \<Rightarrow> TagRow" where
  "tag_row event tg = (id_ev event, tag_name tg, case tag_value tg of None \<Rightarrow> [] | Some v \<Rightarrow> v)"

definition indexTags :: "Deps \<Rightarrow> Faults \<Rightarrow> Event \<Rightarrow> EventData \<Rightarrow> promise" where
  "indexTags D F event data =
     (case filterIndexableTags D event data of
        Inl err \<Rightarrow> Rejected err
      | Inr tgs \<Rightarrow>
          if tgs = [] then Fulfilled
          else Queued (\<lambda>trx.
                 case indexTags_fault F of
                   Some err \<Rightarrow> Inl err
                 | None \<Rightarrow>
                     if tags_foreign_key F \<and> id_ev event \<notin> set (map id_ev (events_tbl trx))
                     then Inl (SqliteError 19)
                     else Inr (trx\<lparr>tags_tbl := tags_tbl trx @ map (tag_row event) tgs\<rparr>)))"

definition indexSearch :: "Deps \<Rightarrow> Faults \<Rightarrow> Event \<Rightarrow> promise" where
  "indexSearch D F event =
     (case buildSearchContent D event of
        Inl err \<Rightarrow> Rejected err
      | Inr searchContent \<Rightarrow>
          if searchContent = [] then Fulfilled
          else Queued (\<lambda>trx.
                 case indexSearch_fault F of
                   Some err \<Rightarrow> Inl err
                 | None \<Rightarrow>
                     Inr (trx\<lparr>events_fts_tbl :=
                            events_fts_tbl trx @ [(id_ev event, take 1000 searchContent)]\<rparr>)))"

text \<open>
  \<^verbatim>\<open>Promise.all\<close> rejects with the first rejection it sees and cancels nothing: the
  statements that are still in the queue are answered all the same, and what fails
  among them is seen by nobody. \<open>Promise_all\<close> gives the tables of the transaction when
  every promise is fulfilled; otherwise the error, and the statements that are answered
  only after the \<^verbatim>\<open>ROLLBACK\<close>.

  A promise that is rejected when \<^verbatim>\<open>Promise.all\<close> is called (the earliest in the array
  first) rejects the callback in the next turns of the job queue, before a queued
  statement gets the connection: all of them come after the \<^verbatim>\<open>ROLLBACK\<close>. When a
  statement fails, \<open>answered_before_rollback\<close> of those behind it are answered before
  the \<^verbatim>\<open>ROLLBACK\<close>, in the transaction, and the others after it.
\<close>

fun first_rejected :: "promise list \<Rightarrow> error option" where
  "first_rejected [] = None"
| "first_rejected (Rejected err # _) = Some err"
| "first_rejected (_ # ps) = first_rejected ps"

fun queued :: "promise list \<Rightarrow> statement list" where
  "queued [] = []"
| "queued (Queued st # ps) = st # queued ps"
| "queued (_ # ps) = queued ps"

fun answer_queue :: "nat \<Rightarrow> statement list \<Rightarrow> DB \<Rightarrow> error \<times> statement list + DB" where
  "answer_queue k [] trx = Inr trx"
| "answer_queue k (st # rest) trx =
     (case st trx of
        Inl err \<Rightarrow> Inl (err, drop k rest)
      | Inr trx' \<Rightarrow> answer_queue k rest trx')"

definition Promise_all ::
  "nat \<Rightarrow> error + DB \<Rightarrow> promise list \<Rightarrow> error \<times> statement list + DB" where
  "Promise_all k answered ps =
     (case first_rejected ps of
        Some err \<Rightarrow> Inl (err, queued ps)
      | None \<Rightarrow>
          (case answered of
             Inl err \<Rightarrow> Inl (err, drop k (queued ps))
           | Inr trx \<Rightarrow> answer_queue k (queued ps) trx))"

text \<open>
  The statements that are answered after the \<^verbatim>\<open>ROLLBACK\<close> run outside the transaction,
  each on its own: one that succeeds stays, one that fails changes nothing.
\<close>

fun after_rollback :: "statement list \<Rightarrow> DB \<Rightarrow> DB" where
  "after_rollback [] db = db"
| "after_rollback (st # rest) db =
     after_rollback rest (case st db of Inl err \<Rightarrow> db | Inr db' \<Rightarrow> db')"

text \<open>
  \<^verbatim>\<open>db.transaction().execute(callback)\<close>: what the callback wrote is committed when it
  returns. When it raises, what was written in the transaction is rolled back, the
  error is raised again, and the statements the callback left in the queue are answered
  after that.
\<close>

definition transaction ::
  "(DB \<Rightarrow> error \<times> statement list + DB) \<Rightarrow> DB \<Rightarrow> (error + unit) \<times> DB" where
  "transaction callback db =
     (case callback db of
        Inl (err, late) \<Rightarrow> (Inl err, after_rollback late db)
      | Inr db' \<Rightarrow> (Inr (), db'))"

text \<open>The \<^verbatim>\<open>.catch\<close> of \<^verbatim>\<open>insertEvent\<close>: \<^verbatim>\<open>error instanceof SqliteError && error.code === 19\<close>.\<close>

fun is_constraint_error :: "error \<Rightarrow> bool" where
  "is_constraint_error (SqliteError code) = (code = 19)"
| "is_constraint_error _ = False"

definition insertEvent :: "Deps \<Rightarrow> Faults \<Rightarrow> Event \<Rightarrow> EventData \<Rightarrow> DB \<Rightarrow> (error + unit) \<times> DB" where
  "insertEvent D F event data db =
     (case transaction
             (\<lambda>trx. Promise_all (answered_before_rollback F) (addEvent F event trx)
                      [indexTags D F event data, indexSearch D F event]) db of
        (Inl err, db') \<Rightarrow> if is_constraint_error err then (Inr (), db') else (Inl err, db')
      | (Inr u, db') \<Rightarrow> (Inr u, db'))"

section \<open>Queries (\<^verbatim>\<open>src/src/db/events.ts\<close>)\<close>

text \<open>
  A filter with the fields the code reads. \<open>tag_filters\<close> holds the keys that start
  with \<^verbatim>\<open>#\<close> (the tag's name without the \<^verbatim>\<open>#\<close>, and the values), in the order of the
  object's keys. A negative \<^verbatim>\<open>LIMIT\<close> is no limit in SQLite.
\<close>

record DittoFilter =
  ids :: "string list option"
  kinds :: "int list option"
  authors :: "string list option"
  since :: "int option"
  until :: "int option"
  limit :: "int option"
  tag_filters :: "(string \<times> string list) list"
  local :: "bool option"
  search :: "string option"

record GetFiltersOpts =
  opts_limit :: "int option"

text \<open>
  The clauses \<^verbatim>\<open>getFilterQuery\<close> adds to \<^verbatim>\<open>SELECT events.* FROM events ORDER BY created_at DESC\<close>.
  \<open>TagsJoin t vs\<close> is \<^verbatim>\<open>leftJoin('tags', 'tags.event_id', 'events.id')\<close> with its two
  \<^verbatim>\<open>where\<close>: \<^verbatim>\<open>tags.tag = t\<close> and \<^verbatim>\<open>tags.value in vs\<close>. \<open>UsersInner\<close> is the inner join with
  \<^verbatim>\<open>users\<close> on the pubkey, \<open>UsersIsNull\<close> the left join with \<^verbatim>\<open>users.pubkey is null\<close>,
  \<open>FtsJoin s\<close> the inner join with \<^verbatim>\<open>events_fts\<close> on the id with the \<^verbatim>\<open>match\<close> of \<open>s\<close>.
\<close>

datatype where_clause =
    IdIn "string list"
  | KindIn "int list"
  | PubkeyIn "string list"
  | CreatedAtGe int
  | CreatedAtLe int

datatype join_clause =
    TagsJoin string "string list"
  | UsersInner
  | UsersIsNull
  | FtsJoin string

text \<open>
  A query of the builder: the select with its joins and wheres, the selects attached to
  it by \<^verbatim>\<open>union\<close>, and its limit; \<^verbatim>\<open>limit\<close> replaces an earlier limit.
\<close>

datatype Query = Query (q_wheres: "where_clause list") (q_joins: "join_clause list")
  (q_unions: "Query list") (q_limit: "int option")

definition getFilterQuery :: "DittoFilter \<Rightarrow> Query" where
  "getFilterQuery flt =
     Query
       ((case ids flt of None \<Rightarrow> [] | Some v \<Rightarrow> [IdIn v]) @
        (case kinds flt of None \<Rightarrow> [] | Some v \<Rightarrow> [KindIn v]) @
        (case authors flt of None \<Rightarrow> [] | Some v \<Rightarrow> [PubkeyIn v]) @
        (case since flt of None \<Rightarrow> [] | Some v \<Rightarrow> [CreatedAtGe v]) @
        (case until flt of None \<Rightarrow> [] | Some v \<Rightarrow> [CreatedAtLe v]))
       (map (\<lambda>(t, vs). TagsJoin t vs) (tag_filters flt) @
        (case local flt of
           None \<Rightarrow> []
         | Some b \<Rightarrow> if b then [UsersInner] else [UsersIsNull]) @
        (case search flt of
           None \<Rightarrow> []
         | Some s \<Rightarrow> if s = [] then [] else [FtsJoin s]))
       []
       (limit flt)"

definition union_query :: "Query \<Rightarrow> Query \<Rightarrow> Query" where
  "union_query result query =
     Query (q_wheres result) (q_joins result) (q_unions result @ [query]) (q_limit result)"

definition set_limit :: "int \<Rightarrow> Query \<Rightarrow> Query" where
  "set_limit n query = Query (q_wheres query) (q_joins query) (q_unions query) (Some n)"

text \<open>
  \<^verbatim>\<open>filters.map(getFilterQuery).reduce((result, query) => result.union(query))\<close>; \<^verbatim>\<open>reduce\<close>
  without an initial value raises a \<^verbatim>\<open>TypeError\<close> on an empty array and returns the only
  element of an array of one.
\<close>

definition getFiltersQuery :: "DittoFilter list \<Rightarrow> error + Query" where
  "getFiltersQuery filters =
     (case map getFilterQuery filters of
        [] \<Rightarrow> Inl TypeError
      | q # qs \<Rightarrow> Inr (foldl union_query q qs))"

text \<open>How the database answers a query.\<close>

fun holds :: "where_clause \<Rightarrow> Event \<Rightarrow> bool" where
  "holds (IdIn v) e = (id_ev e \<in> set v)"
| "holds (KindIn v) e = (kind e \<in> set v)"
| "holds (PubkeyIn v) e = (pubkey e \<in> set v)"
| "holds (CreatedAtGe v) e = (created_at e \<ge> v)"
| "holds (CreatedAtLe v) e = (created_at e \<le> v)"

text \<open>
  A join gives one row for every row of the joined table that goes with the event under
  the \<^verbatim>\<open>ON\<close> and \<^verbatim>\<open>WHERE\<close> conditions on that table; the selected columns are those of
  \<^verbatim>\<open>events\<close>, so the event's row is repeated that many times.
\<close>

fun joined :: "Deps \<Rightarrow> DB \<Rightarrow> join_clause \<Rightarrow> Event \<Rightarrow> nat" where
  "joined D db (TagsJoin t vs) e =
     length (filter (\<lambda>(event_id, tg, v). event_id = id_ev e \<and> tg = t \<and> v \<in> set vs) (tags_tbl db))"
| "joined D db UsersInner e = length (filter (\<lambda>pk. pk = pubkey e) (users_tbl db))"
| "joined D db UsersIsNull e = (if pubkey e \<in> set (users_tbl db) then 0 else 1)"
| "joined D db (FtsJoin s) e =
     length (filter (\<lambda>(i, c). i = id_ev e \<and> ftsMatch D s c) (events_fts_tbl db))"

definition join_rows :: "Deps \<Rightarrow> DB \<Rightarrow> join_clause \<Rightarrow> Event list \<Rightarrow> Event list" where
  "join_rows D db j rows = concat (map (\<lambda>e. replicate (joined D db j e) e) rows)"

definition select_rows :: "Deps \<Rightarrow> DB \<Rightarrow> where_clause list \<Rightarrow> join_clause list \<Rightarrow> Event list" where
  "select_rows D db ws js =
     foldl (\<lambda>rows j. join_rows D db j rows) (filter (\<lambda>e. list_all (\<lambda>w. holds w e) ws) (events_tbl db)) js"

text \<open>
  \<^verbatim>\<open>ORDER BY events.created_at DESC\<close>. The order of rows of one date is the engine's
  (\<open>tie_order\<close>).
\<close>

definition order_by_created_at_desc :: "Deps \<Rightarrow> Event list \<Rightarrow> Event list" where
  "order_by_created_at_desc D rows =
     sort_key (\<lambda>e. - created_at e) (sort_key (tie_order D) rows)"

fun apply_limit :: "int option \<Rightarrow> 'a list \<Rightarrow> 'a list" where
  "apply_limit None rows = rows"
| "apply_limit (Some n) rows = (if n < 0 then rows else take (nat n) rows)"

text \<open>
  The engine refuses two statements that \<^verbatim>\<open>getFiltersQuery\<close> can compose, with its error
  of code 1. In a compound statement every operand of \<^verbatim>\<open>UNION\<close> comes with the
  \<^verbatim>\<open>ORDER BY\<close> that \<^verbatim>\<open>getFilterQuery\<close> gave it, which is a syntax error. And a filter
  with two tag constraints joins \<^verbatim>\<open>tags\<close> twice under the one name, so that \<^verbatim>\<open>tags.tag\<close> is
  an ambiguous column name. A select alone, with at most one join with \<^verbatim>\<open>tags\<close>, gives its
  rows, ordered and limited.
\<close>

fun is_tags_join :: "join_clause \<Rightarrow> bool" where
  "is_tags_join (TagsJoin t vs) = True"
| "is_tags_join _ = False"

fun execute :: "Deps \<Rightarrow> DB \<Rightarrow> Query \<Rightarrow> error + Event list" where
  "execute D db (Query ws js us lim) =
     (if us \<noteq> [] then Inl (SqliteError 1)
      else if 1 < length (filter is_tags_join js) then Inl (SqliteError 1)
      else Inr (apply_limit lim (order_by_created_at_desc D (select_rows D db ws js))))"

definition getFilters :: "Deps \<Rightarrow> DB \<Rightarrow> DittoFilter list \<Rightarrow> GetFiltersOpts \<Rightarrow> error + Event list" where
  "getFilters D db filters opts =
     (if filters = [] then Inr []
      else case getFiltersQuery filters of
             Inl err \<Rightarrow> Inl err
           | Inr query \<Rightarrow>
               execute D db (case opts_limit opts of None \<Rightarrow> query | Some n \<Rightarrow> set_limit n query))"

section \<open>Notions the statements use\<close>

text \<open>How many tags of a list carry a given name.\<close>

definition count_name :: "string \<Rightarrow> tag list \<Rightarrow> nat" where
  "count_name nm tgs = length (filter (\<lambda>tg. tag_name tg = nm) tgs)"

text \<open>The rows of \<^verbatim>\<open>tags\<close> stored for a pair of an event id and a tag name.\<close>

definition tag_rows_of :: "DB \<Rightarrow> string \<Rightarrow> string \<Rightarrow> TagRow list" where
  "tag_rows_of db event_id nm = filter (\<lambda>(i, t, v). i = event_id \<and> t = nm) (tags_tbl db)"

text \<open>
  The tables after the three writes of \<^verbatim>\<open>insertEvent\<close> for an event, its indexable tags
  and its search content: one more event, one row for each indexable tag, and a search
  row if there is search content.
\<close>

definition written :: "Event \<Rightarrow> tag list \<Rightarrow> string \<Rightarrow> DB \<Rightarrow> DB" where
  "written event tgs sc db =
     db\<lparr>events_tbl := events_tbl db @ [event],
        tags_tbl := tags_tbl db @ map (tag_row event) tgs,
        events_fts_tbl :=
          events_fts_tbl db @ (if sc = [] then [] else [(id_ev event, take 1000 sc)])\<rparr>"

text \<open>
  The limit a query of one filter runs with: \<^verbatim>\<open>opts.limit\<close> when it is a number, which
  replaces the filter's own; the filter's own otherwise.
\<close>

definition effective_limit :: "DittoFilter \<Rightarrow> GetFiltersOpts \<Rightarrow> int option" where
  "effective_limit flt opts = (case opts_limit opts of None \<Rightarrow> limit flt | Some n \<Rightarrow> Some n)"

text \<open>
  The tables after a call of \<^verbatim>\<open>insertEvent\<close> that did not commit: the tables before the
  call, with the tag rows of the event or without them, and with its search row or
  without it.
\<close>

definition left_over :: "Deps \<Rightarrow> Event \<Rightarrow> EventData \<Rightarrow> DB \<Rightarrow> DB \<Rightarrow> bool" where
  "left_over D event data db db' =
     (\<exists>T S. db' = db\<lparr>tags_tbl := tags_tbl db @ T, events_fts_tbl := events_fts_tbl db @ S\<rparr> \<and>
        (T = [] \<or> (\<exists>tgs. filterIndexableTags D event data = Inr tgs \<and> T = map (tag_row event) tgs)) \<and>
        (S = [] \<or> (\<exists>sc. buildSearchContent D event = Inr sc \<and> sc \<noteq> [] \<and>
                      S = [(id_ev event, take 1000 sc)])))"

section \<open>Concrete inputs\<close>

text \<open>
  Modelled from the spec: \<^verbatim>\<open>@/kinds.ts\<close>, \<^verbatim>\<open>@/utils.ts\<close> and \<^verbatim>\<open>@/schemas/nostr.ts\<close> are missing.
  \<open>sample_deps\<close> is one instance of the helpers, used only to run the functions above
  on concrete inputs: the parameterized-replaceable range is the one an earlier revision
  of the indexer spells out (\<^verbatim>\<open>30000 <= event.kind && event.kind < 40000\<close>,
  \<^verbatim>\<open>src/unnamed/part_001\<close>); a well-formed identifier is "hash-shaped", 64 lower-case
  hexadecimal digits; a URL is taken to be a string that goes on after \<^verbatim>\<open>https://\<close>; the
  profile parser knows the empty object only and raises on anything else; the full-text
  match is equality; rows of one date stay in the order of the table.
\<close>

definition hex_digit :: "char \<Rightarrow> bool" where
  "hex_digit c = (c \<in> set ''0123456789abcdef'')"

definition sample_deps :: Deps where
  "sample_deps =
     \<lparr>isParameterizedReplaceableKind = (\<lambda>k. 30000 \<le> k \<and> k < 40000),
      isNostrId = (\<lambda>v. case v of None \<Rightarrow> False | Some s \<Rightarrow> length s = 64 \<and> list_all hex_digit s),
      isURL = (\<lambda>v. case v of None \<Rightarrow> False | Some s \<Rightarrow> 8 < length s \<and> take 8 s = ''https://''),
      parseMetaContent =
        (\<lambda>s. if s = ''{}'' then Some \<lparr>name = None, nip05 = None, about = None\<rparr> else None),
      ftsMatch = (\<lambda>q c. q = c),
      tie_order = (\<lambda>e. 0)\<rparr>"

definition no_faults :: Faults where
  "no_faults =
     \<lparr>addEvent_fault = None, indexTags_fault = None, indexSearch_fault = None,
      tags_foreign_key = True, answered_before_rollback = 0\<rparr>"

definition no_data :: EventData where
  "no_data = \<lparr>user = None\<rparr>"

definition empty_db :: DB where
  "empty_db =
     \<lparr>events_tbl = [], tags_tbl = [], events_fts_tbl = [], users_tbl = [],
      pubkey_stats_tbl = Map.empty, event_stats_tbl = Map.empty\<rparr>"

definition no_filter :: DittoFilter where
  "no_filter =
     \<lparr>ids = None, kinds = None, authors = None, since = None, until = None, limit = None,
      tag_filters = [], local = None, search = None\<rparr>"

text \<open>An event of an author, a kind and a date, with tags and content.\<close>

definition make_event :: "string \<Rightarrow> string \<Rightarrow> int \<Rightarrow> int \<Rightarrow> tag list \<Rightarrow> string \<Rightarrow> Event" where
  "make_event i pk k t tgs c =
     \<lparr>id_ev = i, pubkey = pk, kind = k, created_at = t, tags = tgs, content = c, sig = []\<rparr>"

text \<open>A well-formed identifier.\<close>

definition sample_id :: string where
  "sample_id = replicate 64 (CHR ''a'')"

text \<open>The events of the examples.\<close>

definition note_A :: Event where
  "note_A = make_event ''a1'' ''A'' 1 200 [] ''hello''"

definition note_B :: Event where
  "note_B = make_event ''b1'' ''B'' 1 100 [] ''world''"




definition contact_list :: Event where
  "contact_list = make_event ''c1'' ''A'' 3 100 (replicate 16 [''p'', sample_id]) []"

definition twenty_e :: Event where
  "twenty_e = make_event ''e1'' ''A'' 1 100 (replicate 20 [''e'', sample_id]) ''hi''"

definition twenty_bad_e :: Event where
  "twenty_bad_e = make_event ''e2'' ''A'' 1 100 (replicate 20 [''e'', ''abc'']) ''hi''"

definition twenty_t :: Event where
  "twenty_t = make_event ''t1'' ''A'' 1 100 (replicate 20 [''t'', ''nostr'']) ''hi''"

definition twenty_empty_t :: Event where
  "twenty_empty_t = make_event ''t2'' ''A'' 1 100 (replicate 20 [''t'', []]) ''hi''"

definition article :: Event where
  "article = make_event ''d1'' ''A'' 30023 100 [[''d'', ''slug'']] ''text''"

definition long_article :: Event where
  "long_article = make_event ''d2'' ''A'' 30023 100 [[''d'', replicate 250 (CHR ''x'')]] ''text''"

definition hashtags :: Event where
  "hashtags = make_event ''h1'' ''A'' 1 100 [[''t'', ''a''], [''t'', ''b'']] ''hi''"

definition bare_t :: Event where
  "bare_t = make_event ''a1'' ''A'' 1 200 [[''t'']] ''hello''"

definition bad_profile :: Event where
  "bad_profile = make_event ''a1'' ''A'' 0 200 [] ''not json''"

definition bad_profile_bare_t :: Event where
  "bad_profile_bare_t = make_event ''m2'' ''A'' 0 200 [[''t'']] ''not json''"

definition long_note :: Event where
  "long_note = make_event ''n2'' ''A'' 1 100 [] (replicate 2000 (CHR ''x''))"

definition profile :: Event where
  "profile = make_event ''m1'' ''A'' 0 100 [] ''{...}''"

definition alice :: MetaContent where
  "alice = \<lparr>name = Some ''alice'', nip05 = None, about = Some ''dev''\<rparr>"

text \<open>The helpers with a parser that reads the profile of \<open>alice\<close> from any content.\<close>

definition alice_deps :: Deps where
  "alice_deps = sample_deps\<lparr>parseMetaContent := (\<lambda>c. Some alice)\<rparr>"


definition hashtag_filter :: DittoFilter where
  "hashtag_filter = no_filter\<lparr>tag_filters := [(''t'', [''a'', ''b''])]\<rparr>"

definition no_opts :: GetFiltersOpts where
  "no_opts = \<lparr>opts_limit = None\<rparr>"

text \<open>A note with five \<^verbatim>\<open>media\<close> tags, and the data of an event whose author is a local user.\<close>

definition media_post :: Event where
  "media_post = make_event ''p1'' ''A'' 1 100 (replicate 5 [''media'', ''https://example.com/a.png'']) ''pics''"

definition local_data :: EventData where
  "local_data = \<lparr>user = Some \<lparr>user_pubkey = ''A'', inserted_at = 0, admin = False\<rparr>\<rparr>"

text \<open>
  A persistence layer in which, when a statement has failed, the next one in the queue
  is answered before the \<^verbatim>\<open>ROLLBACK\<close>.
\<close>

definition one_answered :: Faults where
  "one_answered = no_faults\<lparr>answered_before_rollback := 1\<rparr>"

text \<open>
  A database whose \<^verbatim>\<open>users\<close> table holds the author \<open>A\<close>, after the notes of \<open>A\<close> and of \<open>B\<close>
  were inserted; and the database after the insertion of \<open>hashtags\<close>.
\<close>

definition db_AB :: DB where
  "db_AB = written note_B [] ''world'' (written note_A [] ''hello'' (empty_db\<lparr>users_tbl := [''A'']\<rparr>))"

definition db_hashtags :: DB where
  "db_hashtags = written hashtags [[''t'', ''a''], [''t'', ''b'']] ''hi'' empty_db"

section \<open>Lemmas\<close>

lemma count_name_simps [simp]:
  "count_name nm [] = 0"
  "count_name nm (tg # tgs) = (if tag_name tg = nm then 1 else 0) + count_name nm tgs"
  "count_name nm (xs @ ys) = count_name nm xs + count_name nm ys"
  by (simp_all add: count_name_def)

lemma index_step_results:
  assumes "index_step D event data (tc, rs) tg = Inr (tc', rs')"
  shows "tc' = tc(tag_name tg \<mapsto> count_of tc (tag_name tg) + 1)
         \<and> (rs' = rs \<or> (rs' = rs @ [tg] \<and> value_fits (tag_value tg)))"
  using assms
  by (auto simp: index_step_def Let_def split: sum.splits option.splits if_splits)

lemma index_step_capped:
  assumes "index_step D event data (tc, rs) tg = Inr (tc', rs')"
    and "\<And>c v. shouldIndex D (tag_name tg) event data c v = Inr True \<Longrightarrow> c < k"
    and "rs' = rs @ [tg]"
  shows "count_of tc (tag_name tg) < k"
  using assms
  by (auto simp: index_step_def Let_def count_of_def split: sum.splits option.splits if_splits)

lemma index_reduce_capped:
  assumes "index_reduce D event data (tc, rs) ts = Inr (tc', rs')"
    and "\<And>c v. shouldIndex D nm event data c v = Inr True \<Longrightarrow> c < k"
  shows "count_name nm rs' \<le> count_name nm rs + (k - count_of tc nm)"
  using assms(1)
proof (induction ts arbitrary: tc rs)
  case Nil
  then show ?case by simp
next
  case (Cons tg ts)
  from Cons.prems obtain tc1 rs1 where
    step: "index_step D event data (tc, rs) tg = Inr (tc1, rs1)" and
    rest: "index_reduce D event data (tc1, rs1) ts = Inr (tc', rs')"
    by (auto split: sum.splits)
  from index_step_results[OF step] have
    tc1: "tc1 = tc(tag_name tg \<mapsto> count_of tc (tag_name tg) + 1)" and
    rs1: "rs1 = rs \<or> (rs1 = rs @ [tg] \<and> value_fits (tag_value tg))"
    by auto
  have IH: "count_name nm rs' \<le> count_name nm rs1 + (k - count_of tc1 nm)"
    by (rule Cons.IH[OF rest])
  show ?case
  proof (cases "tag_name tg = nm")
    case True
    have c1: "count_of tc1 nm = count_of tc nm + 1"
      using tc1 True by (simp add: count_of_def)
    from rs1 show ?thesis
    proof
      assume "rs1 = rs"
      with IH c1 show ?thesis by simp
    next
      assume a: "rs1 = rs @ [tg] \<and> value_fits (tag_value tg)"
      have "count_of tc nm < k"
        using index_step_capped[OF step, of k] assms(2) True a by auto
      with IH c1 a True show ?thesis by simp
    qed
  next
    case False
    have c1: "count_of tc1 nm = count_of tc nm"
      using tc1 False by (simp add: count_of_def)
    have "count_name nm rs1 = count_name nm rs"
      using rs1 False by auto
    with IH c1 show ?thesis by simp
  qed
qed

lemma filterIndexableTags_capped:
  assumes "filterIndexableTags D event data = Inr rows"
    and "\<And>c v. shouldIndex D nm event data c v = Inr True \<Longrightarrow> c < k"
  shows "count_name nm rows \<le> k"
proof -
  from assms(1) obtain tc' where
    "index_reduce D event data (Map.empty, []) (tags event) = Inr (tc', rows)"
    by (auto simp: filterIndexableTags_def split: sum.splits)
  from index_reduce_capped[OF this assms(2)] show ?thesis
    by (simp add: count_of_def)
qed

lemma index_reduce_exact:
  assumes "index_reduce D event data (tc, rs) ts = Inr (tc', rs')"
    and "\<And>tg c. tg \<in> set ts \<Longrightarrow> tag_name tg = nm \<Longrightarrow>
           value_fits (tag_value tg) \<and> shouldIndex D nm event data c (tag_value tg) = Inr (c < k)"
  shows "count_name nm rs' + min k (count_of tc nm)
           = count_name nm rs + min k (count_of tc nm + count_name nm ts)"
  using assms
proof (induction ts arbitrary: tc rs)
  case Nil
  then show ?case by simp
next
  case (Cons tg ts)
  from Cons.prems(1) obtain tc1 rs1 where
    step: "index_step D event data (tc, rs) tg = Inr (tc1, rs1)" and
    rest: "index_reduce D event data (tc1, rs1) ts = Inr (tc', rs')"
    by (auto split: sum.splits)
  have tc1: "tc1 = tc(tag_name tg \<mapsto> count_of tc (tag_name tg) + 1)"
    using index_step_results[OF step] by simp
  have IH: "count_name nm rs' + min k (count_of tc1 nm)
              = count_name nm rs1 + min k (count_of tc1 nm + count_name nm ts)"
    by (rule Cons.IH[OF rest]) (simp add: Cons.prems(2))
  show ?case
  proof (cases "tag_name tg = nm")
    case True
    have c1: "count_of tc1 nm = count_of tc nm + 1"
      using tc1 True by (simp add: count_of_def)
    have ok: "value_fits (tag_value tg)"
      and cond: "shouldIndex D nm event data (count_of tc nm) (tag_value tg) = Inr (count_of tc nm < k)"
      using Cons.prems(2)[of tg] True by simp_all
    have rs1: "rs1 = (if count_of tc nm < k then rs @ [tg] else rs)"
      using step True ok cond
      by (auto simp: index_step_def Let_def count_of_def split: sum.splits if_splits)
    show ?thesis using IH c1 rs1 True by (auto simp: min_def split: if_splits)
  next
    case False
    have c1: "count_of tc1 nm = count_of tc nm"
      using tc1 False by (simp add: count_of_def)
    have "count_name nm rs1 = count_name nm rs"
      using index_step_results[OF step] False by auto
    with IH c1 False show ?thesis by simp
  qed
qed

lemma filterIndexableTags_exact:
  assumes "filterIndexableTags D event data = Inr rows"
    and "\<And>tg c. tg \<in> set (tags event) \<Longrightarrow> tag_name tg = nm \<Longrightarrow>
           value_fits (tag_value tg) \<and> shouldIndex D nm event data c (tag_value tg) = Inr (c < k)"
  shows "count_name nm rows = min k (count_name nm (tags event))"
proof -
  from assms(1) obtain tc' where
    "index_reduce D event data (Map.empty, []) (tags event) = Inr (tc', rows)"
    by (auto simp: filterIndexableTags_def split: sum.splits)
  from index_reduce_exact[OF this assms(2)] show ?thesis
    by (simp add: count_of_def)
qed

lemma answer_queue_late:
  "answer_queue k sts trx = Inl (err, late) \<Longrightarrow> \<exists>n. late = drop n sts"
proof (induction sts arbitrary: trx)
  case Nil
  then show ?case by simp
next
  case (Cons st rest)
  show ?case
  proof (cases "st trx")
    case (Inl e)
    with Cons.prems have "late = drop (Suc k) (st # rest)" by simp
    then show ?thesis by blast
  next
    case (Inr trx')
    with Cons.prems have "answer_queue k rest trx' = Inl (err, late)" by simp
    from Cons.IH[OF this] obtain n where "late = drop n rest" by blast
    then have "late = drop (Suc n) (st # rest)" by simp
    then show ?thesis by blast
  qed
qed

lemma Promise_all_late:
  assumes "Promise_all k answered ps = Inl (err, late)"
  shows "\<exists>n. late = drop n (queued ps)"
proof (cases "first_rejected ps")
  case (Some e)
  with assms have "late = drop 0 (queued ps)" by (simp add: Promise_all_def)
  then show ?thesis by blast
next
  case None
  show ?thesis
  proof (cases answered)
    case (Inl e)
    with assms None show ?thesis by (auto simp: Promise_all_def)
  next
    case (Inr trx)
    with assms None have "answer_queue k (queued ps) trx = Inl (err, late)"
      by (simp add: Promise_all_def)
    then show ?thesis by (rule answer_queue_late)
  qed
qed

lemma drop_two: "drop n [a, b] = (if n = 0 then [a, b] else if n = 1 then [b] else [])"
  by (cases n; cases "n - 1") auto

lemma drop_one: "drop n [a] = (if n = 0 then [a] else [])"
  by (cases n) auto

lemma left_over_forms:
  "left_over D event data db db"
  "filterIndexableTags D event data = Inr tgs \<Longrightarrow>
     left_over D event data db (db\<lparr>tags_tbl := tags_tbl db @ map (tag_row event) tgs\<rparr>)"
  "buildSearchContent D event = Inr sc \<Longrightarrow> sc \<noteq> [] \<Longrightarrow>
     left_over D event data db
       (db\<lparr>events_fts_tbl := events_fts_tbl db @ [(id_ev event, take 1000 sc)]\<rparr>)"
  "filterIndexableTags D event data = Inr tgs \<Longrightarrow>
   buildSearchContent D event = Inr sc \<Longrightarrow> sc \<noteq> [] \<Longrightarrow>
     left_over D event data db
       (db\<lparr>tags_tbl := tags_tbl db @ map (tag_row event) tgs,
           events_fts_tbl := events_fts_tbl db @ [(id_ev event, take 1000 sc)]\<rparr>)"
proof -
  show "left_over D event data db db"
    unfolding left_over_def by (rule exI[of _ "[]"], rule exI[of _ "[]"]) simp
  show "left_over D event data db (db\<lparr>tags_tbl := tags_tbl db @ map (tag_row event) tgs\<rparr>)"
    if "filterIndexableTags D event data = Inr tgs"
    unfolding left_over_def
    by (rule exI[of _ "map (tag_row event) tgs"], rule exI[of _ "[]"]) (simp add: that)
  show "left_over D event data db
       (db\<lparr>events_fts_tbl := events_fts_tbl db @ [(id_ev event, take 1000 sc)]\<rparr>)"
    if "buildSearchContent D event = Inr sc" "sc \<noteq> []"
    unfolding left_over_def
    by (rule exI[of _ "[]"], rule exI[of _ "[(id_ev event, take 1000 sc)]"]) (simp add: that)
  show "left_over D event data db
       (db\<lparr>tags_tbl := tags_tbl db @ map (tag_row event) tgs,
           events_fts_tbl := events_fts_tbl db @ [(id_ev event, take 1000 sc)]\<rparr>)"
    if "filterIndexableTags D event data = Inr tgs" "buildSearchContent D event = Inr sc" "sc \<noteq> []"
    unfolding left_over_def
    by (rule exI[of _ "map (tag_row event) tgs"], rule exI[of _ "[(id_ev event, take 1000 sc)]"])
       (simp add: that)
qed

lemma after_rollback_left_over:
  assumes "late = drop n (queued [indexTags D F event data, indexSearch D F event])"
  shows "left_over D event data db (after_rollback late db)"
  unfolding assms
  by (cases "filterIndexableTags D event data"; cases "buildSearchContent D event")
     (auto simp: indexTags_def indexSearch_def drop_two drop_one left_over_forms
        split: option.splits if_splits)

lemma insertEvent_cases:
  assumes "insertEvent D F event data db = (r, db')"
  shows "(r = Inr () \<and> (\<exists>tgs sc. filterIndexableTags D event data = Inr tgs \<and>
             buildSearchContent D event = Inr sc \<and> db' = written event tgs sc db))
         \<or> left_over D event data db db'"
proof (cases "Promise_all (answered_before_rollback F) (addEvent F event db)
                [indexTags D F event data, indexSearch D F event]")
  case (Inl a)
  obtain err late where a: "a = (err, late)" by (cases a)
  from Promise_all_late[OF Inl[unfolded a]] obtain n where
    "late = drop n (queued [indexTags D F event data, indexSearch D F event])" by blast
  from after_rollback_left_over[OF this] have "left_over D event data db (after_rollback late db)" .
  moreover from assms Inl a have "db' = after_rollback late db"
    by (auto simp: insertEvent_def transaction_def split: if_splits)
  ultimately show ?thesis by simp
next
  case (Inr trx)
  with assms have r: "r = Inr ()" and db': "db' = trx"
    by (auto simp: insertEvent_def transaction_def)
  from Inr obtain tgs sc where
    t: "filterIndexableTags D event data = Inr tgs" and s: "buildSearchContent D event = Inr sc"
    by (cases "filterIndexableTags D event data"; cases "buildSearchContent D event")
       (auto simp: Promise_all_def indexTags_def indexSearch_def split: if_splits)
  from Inr t s have "trx = written event tgs sc db"
    by (auto simp: Promise_all_def addEvent_def indexTags_def indexSearch_def written_def
        split: sum.splits option.splits if_splits)
  with r db' t s show ?thesis by blast
qed

lemma insertEvent_events_tbl:
  assumes "insertEvent D F event data db = (r, db')"
    and "events_tbl db' \<noteq> events_tbl db"
  shows "r = Inr () \<and> (\<exists>tgs sc. filterIndexableTags D event data = Inr tgs \<and>
           buildSearchContent D event = Inr sc \<and> db' = written event tgs sc db)"
  using insertEvent_cases[OF assms(1)] assms(2) by (auto simp: left_over_def)

lemma insertEvent_tags_tbl:
  assumes "insertEvent D F event data db = (r, db')"
  shows "tags_tbl db' = tags_tbl db \<or>
         (\<exists>tgs. filterIndexableTags D event data = Inr tgs \<and>
            tags_tbl db' = tags_tbl db @ map (tag_row event) tgs)"
  using insertEvent_cases[OF assms] by (auto simp: left_over_def written_def)

lemma insertEvent_fts_tbl:
  assumes "insertEvent D F event data db = (r, db')"
  shows "events_fts_tbl db' = events_fts_tbl db \<or>
         (\<exists>sc. buildSearchContent D event = Inr sc \<and> sc \<noteq> [] \<and>
            events_fts_tbl db' = events_fts_tbl db @ [(id_ev event, take 1000 sc)])"
proof -
  from insertEvent_cases[OF assms] show ?thesis
  proof
    assume "r = Inr () \<and> (\<exists>tgs sc. filterIndexableTags D event data = Inr tgs \<and>
             buildSearchContent D event = Inr sc \<and> db' = written event tgs sc db)"
    then obtain tgs sc where sc: "buildSearchContent D event = Inr sc"
      and db': "db' = written event tgs sc db"
      by blast
    show ?thesis
    proof (cases "sc = []")
      case True
      with db' show ?thesis by (simp add: written_def)
    next
      case False
      with db' sc show ?thesis by (simp add: written_def)
    qed
  next
    assume "left_over D event data db db'"
    then show ?thesis by (auto simp: left_over_def)
  qed
qed

lemma tag_rows_of_written:
  assumes "tag_rows_of db (id_ev event) nm = []"
  shows "length (tag_rows_of (written event tgs sc db) (id_ev event) nm) = count_name nm tgs"
proof -
  have "length (filter (\<lambda>(i, t, v). i = id_ev event \<and> t = nm) (map (tag_row event) tgs))
          = count_name nm tgs"
    by (induction tgs) (auto simp: tag_row_def)
  with assms show ?thesis by (simp add: tag_rows_of_def written_def)
qed

lemma tag_rows_after_insert:
  assumes "insertEvent D F event data db = (r, db')"
    and "tag_rows_of db (id_ev event) nm = []"
  shows "tag_rows_of db' (id_ev event) nm = [] \<or>
         (\<exists>tgs. filterIndexableTags D event data = Inr tgs \<and>
            length (tag_rows_of db' (id_ev event) nm) = count_name nm tgs)"
proof -
  have rows: "length (filter (\<lambda>(i, t, v). i = id_ev event \<and> t = nm) (map (tag_row event) tgs))
          = count_name nm tgs" for tgs
    by (induction tgs) (auto simp: tag_row_def)
  from insertEvent_tags_tbl[OF assms(1)] show ?thesis
  proof
    assume "tags_tbl db' = tags_tbl db"
    with assms(2) show ?thesis by (simp add: tag_rows_of_def)
  next
    assume "\<exists>tgs. filterIndexableTags D event data = Inr tgs \<and>
            tags_tbl db' = tags_tbl db @ map (tag_row event) tgs"
    then obtain tgs where t: "filterIndexableTags D event data = Inr tgs"
      and db': "tags_tbl db' = tags_tbl db @ map (tag_row event) tgs"
      by blast
    have "length (tag_rows_of db' (id_ev event) nm) = count_name nm tgs"
      using assms(2) db' rows[of tgs] by (simp add: tag_rows_of_def)
    with t show ?thesis by blast
  qed
qed











lemma tag_filters_local [simp]:
  "tag_filters (flt\<lparr>local := b\<rparr>) = tag_filters flt"
  "tag_filters (flt\<lparr>local := b, limit := l\<rparr>) = tag_filters flt"
  by simp_all

lemma effective_limit_local [simp]:
  "effective_limit (flt\<lparr>local := b\<rparr>) opts = effective_limit flt opts"
  by (simp add: effective_limit_def split: option.splits)

lemma tag_rows_of_fresh:
  "event_id \<notin> set (map fst (tags_tbl db)) \<Longrightarrow> tag_rows_of db event_id nm = []"
  by (force simp: tag_rows_of_def filter_empty_conv)

lemma index_reduce_fits:
  assumes "index_reduce D event data (tc, rs) ts = Inr (tc', rs')"
    and "list_all (\<lambda>tg. value_fits (tag_value tg)) rs"
  shows "list_all (\<lambda>tg. value_fits (tag_value tg)) rs'"
  using assms
proof (induction ts arbitrary: tc rs)
  case Nil
  then show ?case by simp
next
  case (Cons tg ts)
  from Cons.prems(1) obtain tc1 rs1 where
    step: "index_step D event data (tc, rs) tg = Inr (tc1, rs1)" and
    rest: "index_reduce D event data (tc1, rs1) ts = Inr (tc', rs')"
    by (auto split: sum.splits)
  have "list_all (\<lambda>tg. value_fits (tag_value tg)) rs1"
    using index_step_results[OF step] Cons.prems(2) by auto
  from Cons.IH[OF rest this] show ?case .
qed

lemma filterIndexableTags_fits:
  assumes "filterIndexableTags D event data = Inr rows" and "tg \<in> set rows"
  shows "value_fits (tag_value tg)"
proof -
  from assms(1) obtain tc' where
    "index_reduce D event data (Map.empty, []) (tags event) = Inr (tc', rows)"
    by (auto simp: filterIndexableTags_def split: sum.splits)
  from index_reduce_fits[OF this] assms(2) show ?thesis
    by (simp add: list_all_iff)
qed

lemma value_fits_iff: "value_fits x \<longleftrightarrow> (\<exists>v. x = Some v \<and> v \<noteq> [] \<and> length v < 200)"
  by (cases x) auto

subsection \<open>Running the code on the examples\<close>

lemma sample_id_facts:
  "isNostrId sample_deps (Some sample_id)" "value_fits (Some sample_id)"
  by code_simp+

lemma insertEvent_fresh:
  assumes "filterIndexableTags D event data = Inr tgs"
    and "buildSearchContent D event = Inr sc"
    and "id_ev event \<notin> set (map id_ev (events_tbl db))"
  shows "insertEvent D no_faults event data db = (Inr (), written event tgs sc db)"
  using assms
  by (simp add: insertEvent_def transaction_def Promise_all_def addEvent_def indexTags_def
      indexSearch_def written_def no_faults_def)

lemma contact_list_tags:
  "filterIndexableTags sample_deps contact_list no_data = Inr (replicate 16 [''p'', sample_id])"
  by code_simp

lemma twenty_e_tags:
  "filterIndexableTags sample_deps twenty_e no_data = Inr (replicate 15 [''e'', sample_id])"
  by code_simp

lemma twenty_bad_e_tags:
  "filterIndexableTags sample_deps twenty_bad_e no_data = Inr []"
  "isNostrId sample_deps (Some ''abc'') = False"
  by code_simp+

lemma twenty_t_tags:
  "filterIndexableTags sample_deps twenty_t no_data = Inr (replicate 5 [''t'', ''nostr''])"
  by code_simp

lemma twenty_empty_t_tags:
  "filterIndexableTags sample_deps twenty_empty_t no_data = Inr []"
  by code_simp

lemma article_tags:
  "filterIndexableTags sample_deps article no_data = Inr [[''d'', ''slug'']]"
  by code_simp

lemma long_article_tags:
  "filterIndexableTags sample_deps long_article no_data = Inr []"
  "shouldIndex sample_deps ''d'' long_article no_data 0 (Some (replicate 250 (CHR ''x''))) = Inr True"
  by code_simp+

lemma media_post_tags:
  "filterIndexableTags sample_deps media_post local_data
     = Inr (replicate 5 [''media'', ''https://example.com/a.png''])"
  by code_simp

lemma hashtags_tags:
  "filterIndexableTags sample_deps hashtags no_data = Inr [[''t'', ''a''], [''t'', ''b'']]"
  by code_simp

lemmas index_defs =
  filterIndexableTags_def index_step_def shouldIndex_def tagConditions_def objectPrototype_def
  count_of_def Let_def make_event_def

lemma bare_t_tags:
  "filterIndexableTags D bare_t data = Inl TypeError"
  "filterIndexableTags D bad_profile_bare_t data = Inl TypeError"
  by (simp_all add: index_defs bare_t_def bad_profile_bare_t_def)

lemma no_tags:
  "filterIndexableTags D note_A data = Inr []"
  "filterIndexableTags D note_B data = Inr []"
  "filterIndexableTags D bad_profile data = Inr []"
  "filterIndexableTags D long_note data = Inr []"
  "filterIndexableTags D profile data = Inr []"
  by (simp_all add: index_defs note_A_def note_B_def bad_profile_def long_note_def profile_def)

lemma search_contents:
  "buildSearchContent D note_A = Inr ''hello''"
  "buildSearchContent D bare_t = Inr ''hello''"
  "buildSearchContent D hashtags = Inr ''hi''"
  "buildSearchContent D contact_list = Inr []"
  "buildSearchContent D twenty_e = Inr ''hi''"
  "buildSearchContent D twenty_t = Inr ''hi''"
  "buildSearchContent D twenty_empty_t = Inr ''hi''"
  "buildSearchContent D article = Inr []"
  "buildSearchContent D long_article = Inr []"
  "buildSearchContent D media_post = Inr ''pics''"
  "buildSearchContent D long_note = Inr (replicate 2000 (CHR ''x''))"
  "buildSearchContent sample_deps bad_profile = Inl ZodError"
  "buildSearchContent sample_deps bad_profile_bare_t = Inl ZodError"
  "buildSearchContent alice_deps profile = Inr (''alice'' @ [CHR 0x0A] @ ''dev'')"
  by (simp_all add: buildSearchContent_def buildUserSearchContent_def make_event_def
      note_A_def bare_t_def hashtags_def contact_list_def twenty_e_def twenty_t_def
      twenty_empty_t_def article_def long_article_def media_post_def long_note_def bad_profile_def bad_profile_bare_t_def
      profile_def alice_deps_def alice_def sample_deps_def)

lemma db_AB_inserted:
  "insertEvent sample_deps no_faults note_A no_data (empty_db\<lparr>users_tbl := [''A'']\<rparr>)
     = (Inr (), written note_A [] ''hello'' (empty_db\<lparr>users_tbl := [''A'']\<rparr>))"
  "insertEvent sample_deps no_faults note_B no_data
     (written note_A [] ''hello'' (empty_db\<lparr>users_tbl := [''A'']\<rparr>)) = (Inr (), db_AB)"
proof -
  show "insertEvent sample_deps no_faults note_A no_data (empty_db\<lparr>users_tbl := [''A'']\<rparr>)
     = (Inr (), written note_A [] ''hello'' (empty_db\<lparr>users_tbl := [''A'']\<rparr>))"
    by (rule insertEvent_fresh[OF no_tags(1) search_contents(1)]) (simp add: empty_db_def)
  have w: "buildSearchContent sample_deps note_B = Inr ''world''"
    by (simp add: buildSearchContent_def note_B_def make_event_def)
  show "insertEvent sample_deps no_faults note_B no_data
     (written note_A [] ''hello'' (empty_db\<lparr>users_tbl := [''A'']\<rparr>)) = (Inr (), db_AB)"
    unfolding db_AB_def
    by (rule insertEvent_fresh[OF no_tags(2) w])
       (simp add: written_def empty_db_def note_A_def note_B_def make_event_def)
qed

section \<open>The claims\<close>

subsection \<open>Stats\<close>



subsection \<open>The tag indexer\<close>

text \<open>
  C3, as amended. When an event is inserted whose id has no row in \<^verbatim>\<open>tags\<close> yet, the rows
  stored for the event under a tag name are at most 1 for \<^verbatim>\<open>d\<close>, 15 for \<^verbatim>\<open>e\<close>, 1 for \<^verbatim>\<open>q\<close>,
  5 for \<^verbatim>\<open>t\<close> and 1 for \<^verbatim>\<open>proxy\<close>; at most 15 for \<^verbatim>\<open>p\<close> unless the event is a contact
  list (kind 3); and at most 4 for \<^verbatim>\<open>media\<close> unless the event comes with a local user.
\<close>

theorem tag_rows_within_caps:
  assumes "insertEvent D F event data db = (r, db')"
    and "id_ev event \<notin> set (map fst (tags_tbl db))"
  shows "length (tag_rows_of db' (id_ev event) ''d'') \<le> 1 \<and>
         length (tag_rows_of db' (id_ev event) ''e'') \<le> 15 \<and>
         length (tag_rows_of db' (id_ev event) ''q'') \<le> 1 \<and>
         length (tag_rows_of db' (id_ev event) ''t'') \<le> 5 \<and>
         length (tag_rows_of db' (id_ev event) ''proxy'') \<le> 1 \<and>
         (kind event \<noteq> 3 \<longrightarrow> length (tag_rows_of db' (id_ev event) ''p'') \<le> 15) \<and>
         (user data = None \<longrightarrow> length (tag_rows_of db' (id_ev event) ''media'') \<le> 4)"
proof -
  note fresh = tag_rows_of_fresh[OF assms(2)]
  have bound: "length (tag_rows_of db' (id_ev event) nm) \<le> k"
    if "\<And>c v. shouldIndex D nm event data c v = Inr True \<Longrightarrow> c < k" for nm k
    using tag_rows_after_insert[OF assms(1) fresh[of nm]]
  proof
    assume "tag_rows_of db' (id_ev event) nm = []"
    then show ?thesis by simp
  next
    assume "\<exists>tgs. filterIndexableTags D event data = Inr tgs \<and>
              length (tag_rows_of db' (id_ev event) nm) = count_name nm tgs"
    then obtain tgs where t: "filterIndexableTags D event data = Inr tgs"
      and len: "length (tag_rows_of db' (id_ev event) nm) = count_name nm tgs"
      by blast
    from filterIndexableTags_capped[OF t that] len show ?thesis by simp
  qed
  have d: "length (tag_rows_of db' (id_ev event) ''d'') \<le> 1"
    by (rule bound) (auto simp: shouldIndex_def tagConditions_def)
  have e: "length (tag_rows_of db' (id_ev event) ''e'') \<le> 15"
    by (rule bound) (auto simp: shouldIndex_def tagConditions_def)
  have q: "length (tag_rows_of db' (id_ev event) ''q'') \<le> 1"
    by (rule bound) (auto simp: shouldIndex_def tagConditions_def)
  have tt: "length (tag_rows_of db' (id_ev event) ''t'') \<le> 5"
    by (rule bound) (auto simp: shouldIndex_def tagConditions_def split: if_splits option.splits)
  have proxy: "length (tag_rows_of db' (id_ev event) ''proxy'') \<le> 1"
    by (rule bound) (auto simp: shouldIndex_def tagConditions_def)
  have p: "length (tag_rows_of db' (id_ev event) ''p'') \<le> 15" if "kind event \<noteq> 3"
    by (rule bound) (auto simp: shouldIndex_def tagConditions_def that)
  have media: "length (tag_rows_of db' (id_ev event) ''media'') \<le> 4" if "user data = None"
    by (rule bound) (auto simp: shouldIndex_def tagConditions_def that)
  show ?thesis using d e q tt proxy p media by simp
qed

text \<open>
  The contact list (kind 3) with sixteen well-formed \<^verbatim>\<open>p\<close> tags gets sixteen rows, and the
  note of a local user with five \<^verbatim>\<open>media\<close> tags gets five.
\<close>

theorem tag_rows_exceed_caps:
  "kind contact_list = 3 \<and>
   insertEvent sample_deps no_faults contact_list no_data empty_db
     = (Inr (), written contact_list (replicate 16 [''p'', sample_id]) [] empty_db) \<and>
   length (tag_rows_of (written contact_list (replicate 16 [''p'', sample_id]) [] empty_db)
             (id_ev contact_list) ''p'') = 16 \<and>
   insertEvent sample_deps no_faults media_post local_data empty_db
     = (Inr (), written media_post (replicate 5 [''media'', ''https://example.com/a.png''])
                  ''pics'' empty_db) \<and>
   length (tag_rows_of
             (written media_post (replicate 5 [''media'', ''https://example.com/a.png''])
                ''pics'' empty_db)
             (id_ev media_post) ''media'') = 5"
proof -
  have fresh: "\<And>i nm. tag_rows_of empty_db i nm = []"
    by (simp add: tag_rows_of_def empty_db_def)
  have c: "insertEvent sample_deps no_faults contact_list no_data empty_db
     = (Inr (), written contact_list (replicate 16 [''p'', sample_id]) [] empty_db)"
    by (rule insertEvent_fresh[OF contact_list_tags search_contents(4)])
       (simp add: empty_db_def)
  have m: "insertEvent sample_deps no_faults media_post local_data empty_db
     = (Inr (), written media_post (replicate 5 [''media'', ''https://example.com/a.png''])
                  ''pics'' empty_db)"
    by (rule insertEvent_fresh[OF media_post_tags search_contents(10)])
       (simp add: empty_db_def)
  have n16: "count_name ''p'' (replicate 16 [''p'', sample_id]) = 16"
    by (simp add: count_name_def)
  have n5: "count_name ''media'' (replicate 5 [''media'', ''https://example.com/a.png'']) = 5"
    by (simp add: count_name_def)
  have k: "kind contact_list = 3"
    by (simp add: contact_list_def make_event_def)
  show ?thesis
    using c m k by (simp add: tag_rows_of_written[OF fresh] n16 n5)
qed

text \<open>The twenty \<^verbatim>\<open>t\<close> tags of \<open>twenty_t\<close> leave five rows, within every cap.\<close>

theorem tag_rows_within_caps_witness:
  "insertEvent sample_deps no_faults twenty_t no_data empty_db
     = (Inr (), written twenty_t (replicate 5 [''t'', ''nostr'']) ''hi'' empty_db) \<and>
   id_ev twenty_t \<notin> set (map fst (tags_tbl empty_db)) \<and>
   kind twenty_t \<noteq> 3 \<and> user no_data = None \<and>
   length (tag_rows_of (written twenty_t (replicate 5 [''t'', ''nostr'']) ''hi'' empty_db)
             (id_ev twenty_t) ''t'') \<le> 5 \<and>
   length (tag_rows_of (written twenty_t (replicate 5 [''t'', ''nostr'']) ''hi'' empty_db)
             (id_ev twenty_t) ''p'') \<le> 15 \<and>
   length (tag_rows_of (written twenty_t (replicate 5 [''t'', ''nostr'']) ''hi'' empty_db)
             (id_ev twenty_t) ''media'') \<le> 4"
proof -
  have ins: "insertEvent sample_deps no_faults twenty_t no_data empty_db
     = (Inr (), written twenty_t (replicate 5 [''t'', ''nostr'']) ''hi'' empty_db)"
    by (rule insertEvent_fresh[OF twenty_t_tags search_contents(6)]) (simp add: empty_db_def)
  have fresh: "id_ev twenty_t \<notin> set (map fst (tags_tbl empty_db))"
    by (simp add: empty_db_def)
  from tag_rows_within_caps[OF ins fresh] ins fresh show ?thesis
    by (simp add: twenty_t_def make_event_def no_data_def)
qed

text \<open>
  C6, as amended. When the insertion of an event wrote it (its row is in \<^verbatim>\<open>events\<close>
  after the call and was not before, and no row of \<^verbatim>\<open>tags\<close> had its id before): if the
  event has twenty \<^verbatim>\<open>e\<close> tags and the value of each is a well-formed identifier, not
  empty and shorter than 200 characters, fifteen \<^verbatim>\<open>e\<close> rows are stored for it; if it has
  twenty \<^verbatim>\<open>t\<close> tags and the value of each is there, not empty and shorter than 50
  characters, five \<^verbatim>\<open>t\<close> rows are stored for it.
\<close>

theorem tag_rows_at_cap:
  assumes "insertEvent D F event data db = (r, db')"
    and "events_tbl db' \<noteq> events_tbl db"
    and "id_ev event \<notin> set (map fst (tags_tbl db))"
  shows "(count_name ''e'' (tags event) = 20 \<and>
          list_all (\<lambda>tg. tag_name tg = ''e'' \<longrightarrow>
                      isNostrId D (tag_value tg) \<and> value_fits (tag_value tg)) (tags event)
            \<longrightarrow> length (tag_rows_of db' (id_ev event) ''e'') = 15) \<and>
         (count_name ''t'' (tags event) = 20 \<and>
          list_all (\<lambda>tg. tag_name tg = ''t'' \<longrightarrow>
                      (\<exists>v. tag_value tg = Some v \<and> v \<noteq> [] \<and> length v < 50)) (tags event)
            \<longrightarrow> length (tag_rows_of db' (id_ev event) ''t'') = 5)"
proof -
  note fresh = tag_rows_of_fresh[OF assms(3)]
  from insertEvent_events_tbl[OF assms(1) assms(2)] obtain tgs sc where
    t: "filterIndexableTags D event data = Inr tgs" and db': "db' = written event tgs sc db"
    by blast
  have len: "\<And>nm. length (tag_rows_of db' (id_ev event) nm) = count_name nm tgs"
    unfolding db' by (rule tag_rows_of_written[OF fresh])
  have e: "count_name ''e'' tgs = 15"
    if n: "count_name ''e'' (tags event) = 20"
      and ok: "list_all (\<lambda>tg. tag_name tg = ''e'' \<longrightarrow>
                      isNostrId D (tag_value tg) \<and> value_fits (tag_value tg)) (tags event)"
  proof -
    have "count_name ''e'' tgs = min 15 (count_name ''e'' (tags event))"
      by (rule filterIndexableTags_exact[OF t])
         (use ok in \<open>auto simp: shouldIndex_def tagConditions_def list_all_iff\<close>)
    with n show ?thesis by simp
  qed
  have tt: "count_name ''t'' tgs = 5"
    if n: "count_name ''t'' (tags event) = 20"
      and ok: "list_all (\<lambda>tg. tag_name tg = ''t'' \<longrightarrow>
                  (\<exists>v. tag_value tg = Some v \<and> v \<noteq> [] \<and> length v < 50)) (tags event)"
  proof -
    have "count_name ''t'' tgs = min 5 (count_name ''t'' (tags event))"
      by (rule filterIndexableTags_exact[OF t])
         (use ok in \<open>auto simp: shouldIndex_def tagConditions_def list_all_iff\<close>)
    with n show ?thesis by simp
  qed
  show ?thesis using e tt by (simp add: len)
qed

text \<open>
  Twenty \<^verbatim>\<open>e\<close> tags whose value \<open>abc\<close> is not a well-formed identifier leave no row,
  and neither do twenty \<^verbatim>\<open>t\<close> tags whose values have length 0, which is under 50.
\<close>

theorem twenty_tags_no_rows:
  "count_name ''e'' (tags twenty_bad_e) = 20 \<and>
   insertEvent sample_deps no_faults twenty_bad_e no_data empty_db
     = (Inr (), written twenty_bad_e [] ''hi'' empty_db) \<and>
   length (tag_rows_of (written twenty_bad_e [] ''hi'' empty_db) (id_ev twenty_bad_e) ''e'') = 0 \<and>
   count_name ''t'' (tags twenty_empty_t) = 20 \<and>
   list_all (\<lambda>tg. tag_name tg = ''t'' \<and> (\<exists>v. tag_value tg = Some v \<and> length v < 50))
     (tags twenty_empty_t) \<and>
   insertEvent sample_deps no_faults twenty_empty_t no_data empty_db
     = (Inr (), written twenty_empty_t [] ''hi'' empty_db) \<and>
   length (tag_rows_of (written twenty_empty_t [] ''hi'' empty_db) (id_ev twenty_empty_t) ''t'') = 0"
proof -
  have hi: "buildSearchContent sample_deps twenty_bad_e = Inr ''hi''"
    by (simp add: buildSearchContent_def twenty_bad_e_def make_event_def)
  have e: "insertEvent sample_deps no_faults twenty_bad_e no_data empty_db
     = (Inr (), written twenty_bad_e [] ''hi'' empty_db)"
    by (rule insertEvent_fresh[OF twenty_bad_e_tags(1) hi]) (simp add: empty_db_def)
  have t: "insertEvent sample_deps no_faults twenty_empty_t no_data empty_db
     = (Inr (), written twenty_empty_t [] ''hi'' empty_db)"
    by (rule insertEvent_fresh[OF twenty_empty_t_tags search_contents(7)])
       (simp add: empty_db_def)
  have fresh: "\<And>i nm. tag_rows_of empty_db i nm = []"
    by (simp add: tag_rows_of_def empty_db_def)
  have n: "count_name ''e'' (tags twenty_bad_e) = 20" "count_name ''t'' (tags twenty_empty_t) = 20"
    and l: "list_all (\<lambda>tg. tag_name tg = ''t'' \<and> (\<exists>v. tag_value tg = Some v \<and> length v < 50))
              (tags twenty_empty_t)"
    by (simp_all add: twenty_bad_e_def twenty_empty_t_def make_event_def count_name_def
        list_all_iff)
  show ?thesis
    using e t n l by (simp add: tag_rows_of_written[OF fresh])
qed

text \<open>
  Twenty \<^verbatim>\<open>e\<close> tags with a well-formed identifier leave fifteen rows, twenty \<^verbatim>\<open>t\<close> tags
  with the value \<open>nostr\<close> leave five.
\<close>

theorem tag_rows_at_cap_witness:
  "insertEvent sample_deps no_faults twenty_e no_data empty_db
     = (Inr (), written twenty_e (replicate 15 [''e'', sample_id]) ''hi'' empty_db) \<and>
   events_tbl (written twenty_e (replicate 15 [''e'', sample_id]) ''hi'' empty_db)
     \<noteq> events_tbl empty_db \<and>
   id_ev twenty_e \<notin> set (map fst (tags_tbl empty_db)) \<and>
   count_name ''e'' (tags twenty_e) = 20 \<and>
   list_all (\<lambda>tg. tag_name tg = ''e'' \<and> isNostrId sample_deps (tag_value tg) \<and>
                   value_fits (tag_value tg)) (tags twenty_e) \<and>
   length (tag_rows_of (written twenty_e (replicate 15 [''e'', sample_id]) ''hi'' empty_db)
             (id_ev twenty_e) ''e'') = 15 \<and>
   insertEvent sample_deps no_faults twenty_t no_data empty_db
     = (Inr (), written twenty_t (replicate 5 [''t'', ''nostr'']) ''hi'' empty_db) \<and>
   events_tbl (written twenty_t (replicate 5 [''t'', ''nostr'']) ''hi'' empty_db)
     \<noteq> events_tbl empty_db \<and>
   id_ev twenty_t \<notin> set (map fst (tags_tbl empty_db)) \<and>
   count_name ''t'' (tags twenty_t) = 20 \<and>
   list_all (\<lambda>tg. tag_name tg = ''t'' \<and> (\<exists>v. tag_value tg = Some v \<and> v \<noteq> [] \<and> length v < 50))
     (tags twenty_t) \<and>
   length (tag_rows_of (written twenty_t (replicate 5 [''t'', ''nostr'']) ''hi'' empty_db)
             (id_ev twenty_t) ''t'') = 5"
proof -
  have e: "insertEvent sample_deps no_faults twenty_e no_data empty_db
     = (Inr (), written twenty_e (replicate 15 [''e'', sample_id]) ''hi'' empty_db)"
    by (rule insertEvent_fresh[OF twenty_e_tags search_contents(5)]) (simp add: empty_db_def)
  have t: "insertEvent sample_deps no_faults twenty_t no_data empty_db
     = (Inr (), written twenty_t (replicate 5 [''t'', ''nostr'']) ''hi'' empty_db)"
    by (rule insertEvent_fresh[OF twenty_t_tags search_contents(6)]) (simp add: empty_db_def)
  have ne: "events_tbl (written twenty_e (replicate 15 [''e'', sample_id]) ''hi'' empty_db)
      \<noteq> events_tbl empty_db"
    "events_tbl (written twenty_t (replicate 5 [''t'', ''nostr'']) ''hi'' empty_db)
      \<noteq> events_tbl empty_db"
    by (simp_all add: written_def empty_db_def)
  have fresh: "id_ev twenty_e \<notin> set (map fst (tags_tbl empty_db))"
    "id_ev twenty_t \<notin> set (map fst (tags_tbl empty_db))"
    by (simp_all add: empty_db_def)
  have ce: "count_name ''e'' (tags twenty_e) = 20"
    and le: "list_all (\<lambda>tg. tag_name tg = ''e'' \<and> isNostrId sample_deps (tag_value tg) \<and>
                   value_fits (tag_value tg)) (tags twenty_e)"
    using sample_id_facts
    by (simp_all add: twenty_e_def make_event_def count_name_def list_all_iff)
  have ct: "count_name ''t'' (tags twenty_t) = 20"
    and lt: "list_all (\<lambda>tg. tag_name tg = ''t'' \<and>
               (\<exists>v. tag_value tg = Some v \<and> v \<noteq> [] \<and> length v < 50)) (tags twenty_t)"
    by (simp_all add: twenty_t_def make_event_def count_name_def list_all_iff)
  from le have le': "list_all (\<lambda>tg. tag_name tg = ''e'' \<longrightarrow> isNostrId sample_deps (tag_value tg) \<and>
                   value_fits (tag_value tg)) (tags twenty_e)"
    by (simp add: list_all_iff)
  from lt have lt': "list_all (\<lambda>tg. tag_name tg = ''t'' \<longrightarrow>
               (\<exists>v. tag_value tg = Some v \<and> v \<noteq> [] \<and> length v < 50)) (tags twenty_t)"
    by (simp add: list_all_iff)
  from tag_rows_at_cap[OF e ne(1) fresh(1)] tag_rows_at_cap[OF t ne(2) fresh(2)]
    e t ne fresh ce le ct lt le' lt'
  show ?thesis by simp
qed

text \<open>
  C7. A tag that \<^verbatim>\<open>filterIndexableTags\<close> returns has a value shorter than 200 characters,
  and so has every row that \<^verbatim>\<open>insertEvent\<close> adds to \<^verbatim>\<open>tags\<close>: a value of 200 characters or
  more (of 250, say) is never indexed, whatever its tag name, its occurrence and its
  shape.
\<close>

theorem long_values_never_indexed:
  "(filterIndexableTags D event data = Inr rows \<and> tg \<in> set rows \<longrightarrow>
      (\<exists>v. tag_value tg = Some v \<and> v \<noteq> [] \<and> length v < 200)) \<and>
   (insertEvent D F event data db = (r, db') \<and> (i, nm, v) \<in> set (tags_tbl db') \<and>
    (i, nm, v) \<notin> set (tags_tbl db) \<longrightarrow> length v < 200)"
proof (intro conjI impI)
  assume "filterIndexableTags D event data = Inr rows \<and> tg \<in> set rows"
  then show "\<exists>v. tag_value tg = Some v \<and> v \<noteq> [] \<and> length v < 200"
    using filterIndexableTags_fits value_fits_iff by blast
next
  assume a: "insertEvent D F event data db = (r, db') \<and> (i, nm, v) \<in> set (tags_tbl db') \<and>
    (i, nm, v) \<notin> set (tags_tbl db)"
  then have "tags_tbl db' \<noteq> tags_tbl db" by auto
  with insertEvent_tags_tbl[of D F event data db r db'] a obtain tgs where
    t: "filterIndexableTags D event data = Inr tgs"
    and db': "tags_tbl db' = tags_tbl db @ map (tag_row event) tgs"
    by blast
  from a db' have "(i, nm, v) \<in> set (map (tag_row event) tgs)"
    by auto
  then obtain tg where tg: "tg \<in> set tgs" and row: "(i, nm, v) = tag_row event tg"
    by auto
  from filterIndexableTags_fits[OF t tg] obtain w where
    "tag_value tg = Some w" "length w < 200"
    unfolding value_fits_iff by blast
  with row show "length v < 200" by (simp add: tag_row_def)
qed

text \<open>
  The \<^verbatim>\<open>d\<close> tag of the article, four characters long, is indexed; the \<^verbatim>\<open>d\<close> tag of 250
  characters of the other article is not, although its condition holds.
\<close>

theorem long_values_never_indexed_witness:
  "filterIndexableTags sample_deps article no_data = Inr [[''d'', ''slug'']] \<and>
   [''d'', ''slug''] \<in> set [[''d'', ''slug'']] \<and>
   (\<exists>v. tag_value [''d'', ''slug''] = Some v \<and> v \<noteq> [] \<and> length v < 200) \<and>
   insertEvent sample_deps no_faults article no_data empty_db
     = (Inr (), written article [[''d'', ''slug'']] [] empty_db) \<and>
   (''d1'', ''d'', ''slug'') \<in> set (tags_tbl (written article [[''d'', ''slug'']] [] empty_db)) \<and>
   (''d1'', ''d'', ''slug'') \<notin> set (tags_tbl empty_db) \<and>
   length ''slug'' < 200 \<and>
   shouldIndex sample_deps ''d'' long_article no_data 0 (Some (replicate 250 (CHR ''x''))) = Inr True \<and>
   insertEvent sample_deps no_faults long_article no_data empty_db
     = (Inr (), written long_article [] [] empty_db) \<and>
   tags_tbl (written long_article [] [] empty_db) = []"
proof -
  have a: "insertEvent sample_deps no_faults article no_data empty_db
     = (Inr (), written article [[''d'', ''slug'']] [] empty_db)"
    by (rule insertEvent_fresh[OF article_tags search_contents(8)]) (simp add: empty_db_def)
  have l: "insertEvent sample_deps no_faults long_article no_data empty_db
     = (Inr (), written long_article [] [] empty_db)"
    by (rule insertEvent_fresh[OF long_article_tags(1) search_contents(9)])
       (simp add: empty_db_def)
  have rows: "(''d1'', ''d'', ''slug'') \<in> set (tags_tbl (written article [[''d'', ''slug'']] [] empty_db))"
    "(''d1'', ''d'', ''slug'') \<notin> set (tags_tbl empty_db)"
    "tags_tbl (written long_article [] [] empty_db) = []"
    by (simp_all add: written_def empty_db_def tag_row_def article_def make_event_def)
  from long_values_never_indexed[of sample_deps article no_data "[[''d'', ''slug'']]"
      "[''d'', ''slug'']" no_faults empty_db "Inr ()" "written article [[''d'', ''slug'']] [] empty_db"
      "''d1''" "''d''" "''slug''"]
    article_tags a l rows long_article_tags(2)
  show ?thesis by simp
qed

subsection \<open>Inserting an event\<close>

text \<open>
  C1 fails on the code: inserting an event that is stored already is not a no-op. The
  event \<open>hashtags\<close> is inserted, and then inserted again. The second call succeeds, as
  the claim says (the \<^verbatim>\<open>.catch\<close> ignores the error of code 19 of the first statement), and
  \<^verbatim>\<open>events\<close> keeps its one row; but the statement for \<^verbatim>\<open>events_fts\<close> was in the queue already
  and is answered after the \<^verbatim>\<open>ROLLBACK\<close>, so that the search row of the event is there
  twice. This is so whether the \<^verbatim>\<open>ROLLBACK\<close> comes before the two queued statements or
  between them.
\<close>

theorem duplicate_insert_adds_search_row:
  "insertEvent sample_deps no_faults hashtags no_data empty_db = (Inr (), db_hashtags) \<and>
   events_fts_tbl db_hashtags = [(''h1'', ''hi'')] \<and>
   fst (insertEvent sample_deps no_faults hashtags no_data db_hashtags) = Inr () \<and>
   events_tbl (snd (insertEvent sample_deps no_faults hashtags no_data db_hashtags))
     = [hashtags] \<and>
   events_fts_tbl (snd (insertEvent sample_deps no_faults hashtags no_data db_hashtags))
     = [(''h1'', ''hi''), (''h1'', ''hi'')] \<and>
   fst (insertEvent sample_deps one_answered hashtags no_data db_hashtags) = Inr () \<and>
   events_tbl (snd (insertEvent sample_deps one_answered hashtags no_data db_hashtags))
     = [hashtags] \<and>
   events_fts_tbl (snd (insertEvent sample_deps one_answered hashtags no_data db_hashtags))
     = [(''h1'', ''hi''), (''h1'', ''hi'')]"
proof -
  have first: "insertEvent sample_deps no_faults hashtags no_data empty_db = (Inr (), db_hashtags)"
    unfolding db_hashtags_def
    by (rule insertEvent_fresh[OF hashtags_tags search_contents(3)]) (simp add: empty_db_def)
  have stored: "id_ev hashtags \<in> set (map id_ev (events_tbl db_hashtags))"
    "events_tbl db_hashtags = [hashtags]" "events_fts_tbl db_hashtags = [(''h1'', ''hi'')]"
    by (simp_all add: db_hashtags_def written_def empty_db_def hashtags_def make_event_def)
  have again: "insertEvent sample_deps no_faults hashtags no_data db_hashtags
      = (Inr (), db_hashtags
           \<lparr>tags_tbl := tags_tbl db_hashtags @ map (tag_row hashtags) [[''t'', ''a''], [''t'', ''b'']],
            events_fts_tbl := events_fts_tbl db_hashtags @ [(id_ev hashtags, ''hi'')]\<rparr>)"
    using stored(1)
    by (simp add: insertEvent_def transaction_def Promise_all_def addEvent_def indexTags_def
        indexSearch_def hashtags_tags search_contents(3) no_faults_def)
  have again1: "insertEvent sample_deps one_answered hashtags no_data db_hashtags
      = (Inr (), db_hashtags
           \<lparr>events_fts_tbl := events_fts_tbl db_hashtags @ [(id_ev hashtags, ''hi'')]\<rparr>)"
    using stored(1)
    by (simp add: insertEvent_def transaction_def Promise_all_def addEvent_def indexTags_def
        indexSearch_def hashtags_tags search_contents(3) no_faults_def one_answered_def)
  have i: "id_ev hashtags = ''h1''"
    by (simp add: hashtags_def make_event_def)
  show ?thesis
    by (simp add: first again again1 stored i)
qed

text \<open>
  C4 fails on the code: the three writes are not one unit. The note \<open>bare_t\<close> has a \<^verbatim>\<open>t\<close>
  tag without a value, on which \<^verbatim>\<open>filterIndexableTags\<close> raises. The call raises that
  \<^verbatim>\<open>TypeError\<close> and the row of \<^verbatim>\<open>events\<close> is rolled back; the statement for \<^verbatim>\<open>events_fts\<close>
  was in the queue already and is answered after the \<^verbatim>\<open>ROLLBACK\<close>: the search row of the
  event stays, with no event.
\<close>

theorem failed_insert_keeps_search_row:
  "fst (insertEvent sample_deps no_faults bare_t no_data empty_db) = Inl TypeError \<and>
   events_tbl (snd (insertEvent sample_deps no_faults bare_t no_data empty_db)) = [] \<and>
   tags_tbl (snd (insertEvent sample_deps no_faults bare_t no_data empty_db)) = [] \<and>
   events_fts_tbl (snd (insertEvent sample_deps no_faults bare_t no_data empty_db))
     = [(''a1'', ''hello'')]"
proof -
  have "insertEvent sample_deps no_faults bare_t no_data empty_db
      = (Inl TypeError,
         empty_db\<lparr>events_fts_tbl := events_fts_tbl empty_db @ [(id_ev bare_t, ''hello'')]\<rparr>)"
    by (simp add: insertEvent_def transaction_def Promise_all_def addEvent_def indexTags_def
        indexSearch_def bare_t_tags(1) search_contents(2) no_faults_def)
  then show ?thesis
    by (simp add: empty_db_def bare_t_def make_event_def)
qed

text \<open>
  C10 fails on the code: the error that reaches the caller is not always the parse
  error. The profile \<open>bad_profile\<close>, whose content does not parse, is refused with the
  parse error and nothing is stored, as the claim says. The profile \<open>bad_profile_bare_t\<close>
  has the same content and a \<^verbatim>\<open>t\<close> tag without a value: \<^verbatim>\<open>value.length\<close> in the condition
  of \<^verbatim>\<open>t\<close> raises a \<^verbatim>\<open>TypeError\<close>, \<^verbatim>\<open>indexTags\<close> is rejected before \<^verbatim>\<open>indexSearch\<close>, and the
  caller gets the \<^verbatim>\<open>TypeError\<close>.
\<close>

theorem unparsable_profile_raises_TypeError:
  "kind bad_profile = 0 \<and> parseMetaContent sample_deps (content bad_profile) = None \<and>
   insertEvent sample_deps no_faults bad_profile no_data empty_db = (Inl ZodError, empty_db) \<and>
   kind bad_profile_bare_t = 0 \<and>
   parseMetaContent sample_deps (content bad_profile_bare_t) = None \<and>
   insertEvent sample_deps no_faults bad_profile_bare_t no_data empty_db
     = (Inl TypeError, empty_db)"
proof -
  have "insertEvent sample_deps no_faults bad_profile no_data empty_db = (Inl ZodError, empty_db)"
    by (simp add: insertEvent_def transaction_def Promise_all_def addEvent_def indexTags_def
        indexSearch_def no_tags(3) search_contents(12))
  moreover have "insertEvent sample_deps no_faults bad_profile_bare_t no_data empty_db
      = (Inl TypeError, empty_db)"
    by (simp add: insertEvent_def transaction_def Promise_all_def addEvent_def indexTags_def
        indexSearch_def bare_t_tags(2) search_contents(13))
  ultimately show ?thesis
    by (simp add: bad_profile_def bad_profile_bare_t_def make_event_def sample_deps_def)
qed

subsection \<open>The search indexer\<close>

text \<open>
  C5. For an event of kind 0 whose content parses, \<^verbatim>\<open>buildSearchContent\<close> is the name, the
  nip05 and the about of the parsed content joined with newlines, those left out that
  are absent (or empty); for an event of kind 1 it is the content as it is. An
  insertion of an event of another kind adds no row to \<^verbatim>\<open>events_fts\<close>; an insertion of
  any event adds no row, or one row for the event whose content is the first 1000
  characters of the search content, so at most 1000 characters long.
\<close>

theorem search_content_by_kind:
  "(kind event = 0 \<and> parseMetaContent D (content event) = Some m \<longrightarrow>
      buildSearchContent D event
        = Inr (join [CHR 0x0A] (filter_Boolean [name m, nip05 m, about m]))) \<and>
   (kind event = 1 \<longrightarrow> buildSearchContent D event = Inr (content event)) \<and>
   (insertEvent D F event data db = (r, db') \<longrightarrow>
      (kind event \<noteq> 0 \<and> kind event \<noteq> 1 \<longrightarrow> events_fts_tbl db' = events_fts_tbl db) \<and>
      (events_fts_tbl db' = events_fts_tbl db \<or>
       (\<exists>sc. buildSearchContent D event = Inr sc \<and>
          events_fts_tbl db' = events_fts_tbl db @ [(id_ev event, take 1000 sc)] \<and>
          length (take 1000 sc) \<le> 1000)))"
proof (intro conjI impI)
  assume "kind event = 0 \<and> parseMetaContent D (content event) = Some m"
  then show "buildSearchContent D event
        = Inr (join [CHR 0x0A] (filter_Boolean [name m, nip05 m, about m]))"
    by (simp add: buildSearchContent_def buildUserSearchContent_def)
next
  assume "kind event = 1"
  then show "buildSearchContent D event = Inr (content event)"
    by (simp add: buildSearchContent_def)
next
  assume ins: "insertEvent D F event data db = (r, db')"
    and k: "kind event \<noteq> 0 \<and> kind event \<noteq> 1"
  from k have "buildSearchContent D event = Inr []"
    by (simp add: buildSearchContent_def)
  with insertEvent_fts_tbl[OF ins] show "events_fts_tbl db' = events_fts_tbl db"
    by auto
next
  assume ins: "insertEvent D F event data db = (r, db')"
  from insertEvent_fts_tbl[OF ins]
  show "events_fts_tbl db' = events_fts_tbl db \<or>
       (\<exists>sc. buildSearchContent D event = Inr sc \<and>
          events_fts_tbl db' = events_fts_tbl db @ [(id_ev event, take 1000 sc)] \<and>
          length (take 1000 sc) \<le> 1000)"
    by auto
qed

text \<open>
  The profile of \<open>alice\<close>, who has a name and an about and no nip05; the note of \<open>A\<close>; a
  note of 2000 characters, whose search row has 1000; and an article, which gets no
  search row.
\<close>

theorem search_content_by_kind_witness:
  "kind profile = 0 \<and> parseMetaContent alice_deps (content profile) = Some alice \<and>
   buildSearchContent alice_deps profile = Inr (''alice'' @ [CHR 0x0A] @ ''dev'') \<and>
   kind note_A = 1 \<and> buildSearchContent sample_deps note_A = Inr ''hello'' \<and>
   insertEvent sample_deps no_faults long_note no_data empty_db
     = (Inr (), written long_note [] (replicate 2000 (CHR ''x'')) empty_db) \<and>
   events_fts_tbl (written long_note [] (replicate 2000 (CHR ''x'')) empty_db)
     = [(''n2'', replicate 1000 (CHR ''x''))] \<and>
   kind article \<noteq> 0 \<and> kind article \<noteq> 1 \<and>
   insertEvent sample_deps no_faults article no_data empty_db
     = (Inr (), written article [[''d'', ''slug'']] [] empty_db) \<and>
   events_fts_tbl (written article [[''d'', ''slug'']] [] empty_db) = events_fts_tbl empty_db"
proof -
  have p: "kind profile = 0" "parseMetaContent alice_deps (content profile) = Some alice"
    "kind note_A = 1" "kind article \<noteq> 0" "kind article \<noteq> 1"
    by (simp_all add: profile_def note_A_def article_def make_event_def alice_deps_def)
  have l: "insertEvent sample_deps no_faults long_note no_data empty_db
     = (Inr (), written long_note [] (replicate 2000 (CHR ''x'')) empty_db)"
    by (rule insertEvent_fresh[OF no_tags(4) search_contents(11)]) (simp add: empty_db_def)
  have a: "insertEvent sample_deps no_faults article no_data empty_db
     = (Inr (), written article [[''d'', ''slug'']] [] empty_db)"
    by (rule insertEvent_fresh[OF article_tags search_contents(8)]) (simp add: empty_db_def)
  have rows: "events_fts_tbl (written long_note [] (replicate 2000 (CHR ''x'')) empty_db)
     = [(''n2'', replicate 1000 (CHR ''x''))]"
    "events_fts_tbl (written article [[''d'', ''slug'']] [] empty_db) = events_fts_tbl empty_db"
    by (simp_all add: written_def empty_db_def long_note_def make_event_def)
  from search_content_by_kind[where event = profile and D = alice_deps and m = alice]
    search_content_by_kind[where event = note_A and D = sample_deps]
    search_content_by_kind[where event = long_note and D = sample_deps and F = no_faults
      and data = no_data and db = empty_db and r = "Inr ()"
      and db' = "written long_note [] (replicate 2000 (CHR ''x'')) empty_db"]
    search_content_by_kind[where event = article and D = sample_deps and F = no_faults
      and data = no_data and db = empty_db and r = "Inr ()"
      and db' = "written article [[''d'', ''slug'']] [] empty_db"]
    p l a rows search_contents(1) search_contents(14)
  show ?thesis by simp
qed

subsection \<open>Queries\<close>



text \<open>
  C2 fails on the code: a query of one filter is not a \<^verbatim>\<open>UNION\<close>, and its join with \<^verbatim>\<open>tags\<close>
  gives one row for every tag row that matches. The event \<open>hashtags\<close> has the tags
  \<open>t = a\<close> and \<open>t = b\<close>, which are both indexed when it is inserted; the filter
  \<^verbatim>\<open>{"#t": ["a", "b"]}\<close> then returns the event twice.
\<close>

theorem getFilters_repeats_event:
  "insertEvent sample_deps no_faults hashtags no_data empty_db = (Inr (), db_hashtags) \<and>
   tags_tbl db_hashtags = [(''h1'', ''t'', ''a''), (''h1'', ''t'', ''b'')] \<and>
   getFilters sample_deps db_hashtags [hashtag_filter] no_opts = Inr [hashtags, hashtags]"
proof -
  have "insertEvent sample_deps no_faults hashtags no_data empty_db = (Inr (), db_hashtags)"
    unfolding db_hashtags_def
    by (rule insertEvent_fresh[OF hashtags_tags search_contents(3)]) (simp add: empty_db_def)
  moreover have "tags_tbl db_hashtags = [(''h1'', ''t'', ''a''), (''h1'', ''t'', ''b'')]"
    by (simp add: db_hashtags_def written_def empty_db_def tag_row_def hashtags_def make_event_def)
  moreover have "getFilters sample_deps db_hashtags [hashtag_filter] no_opts
      = Inr [hashtags, hashtags]"
    by code_simp
  ultimately show ?thesis by simp
qed



end
